theory Spec2Isabelle
  imports Main
begin

section \<open>The RESP3 decoder of pkg/proto/resp3.go\<close>

text \<open>
  The decoder reads from a \<^verbatim>\<open>*bufio.Reader\<close>. The reader is modelled by the bytes
  it has not delivered yet: a finite stream that ends with \<^verbatim>\<open>io.EOF\<close> (the only
  error of the byte source in this model). Every Go
  function \<^verbatim>\<open>f(i) (T, error)\<close> becomes a function from the reader to the pair
  returned (the value and the error, \<open>None\<close> for \<^verbatim>\<open>nil\<close>) together with the
  reader afterwards; a Go panic is an outcome of its own.
\<close>

subsection \<open>Errors, outcomes and the byte source\<close>

type_synonym reader = "char list"

datatype error =
    EOF
  | ErrUnexpectedEOF
  | ErrNegativeCount
  | ErrSyntax
  | ErrRange
  | chunked

datatype 'a outcome =
    Returns 'a
  | Panics string
  | Timeout

definition andThen ::
  "'a outcome \<times> reader \<Rightarrow> ('a \<Rightarrow> reader \<Rightarrow> 'b outcome \<times> reader) \<Rightarrow> 'b outcome \<times> reader"
where
  "andThen m k =
     (case m of
        (Returns a, i) \<Rightarrow> k a i
      | (Panics p, i) \<Rightarrow> (Panics p, i)
      | (Timeout, i) \<Rightarrow> (Timeout, i))"

definition LF :: char where
  "LF = CHR 0x0A"

definition CR :: char where
  "CR = CHR 0x0D"

definition CRLF :: string where
  "CRLF = [CR, LF]"

text \<open>\<^verbatim>\<open>i.ReadByte()\<close>\<close>

definition ReadByte :: "reader \<Rightarrow> (char \<times> error option) \<times> reader" where
  "ReadByte i =
     (case i of
        [] \<Rightarrow> ((CHR 0x00, Some EOF), [])
      | b # i' \<Rightarrow> ((b, None), i'))"

text \<open>\<^verbatim>\<open>i.ReadBytes(delim)\<close>: the bytes up to and including the first
  \<open>delim\<close>; without one, all the bytes left and \<^verbatim>\<open>io.EOF\<close>.\<close>

definition ReadBytes :: "char \<Rightarrow> reader \<Rightarrow> (string \<times> error option) \<times> reader" where
  "ReadBytes delim i =
     (if delim \<in> set i
      then ((takeWhile (\<lambda>c. c \<noteq> delim) i @ [delim], None),
            tl (dropWhile (\<lambda>c. c \<noteq> delim) i))
      else ((i, Some EOF), []))"

text \<open>\<^verbatim>\<open>io.ReadFull(i, bs)\<close> for a buffer of \<open>n\<close> bytes: a buffer of length 0
  is filled at once; a short read is \<^verbatim>\<open>io.ErrUnexpectedEOF\<close>, and
  \<^verbatim>\<open>io.EOF\<close> when no byte was read.\<close>

definition ReadFull :: "nat \<Rightarrow> reader \<Rightarrow> (string \<times> error option) \<times> reader" where
  "ReadFull n i =
     (if n \<le> length i then ((take n i, None), drop n i)
      else if i = [] then (([], Some EOF), [])
      else ((i, Some ErrUnexpectedEOF), []))"

text \<open>\<^verbatim>\<open>i.Discard(n)\<close>\<close>

definition Discard :: "int \<Rightarrow> reader \<Rightarrow> (int \<times> error option) \<times> reader" where
  "Discard n i =
     (if n < 0 then ((0, Some ErrNegativeCount), i)
      else if nat n \<le> length i then ((n, None), drop (nat n) i)
      else ((int (length i), Some EOF), []))"

subsection \<open>The parsers of Go's standard library\<close>

text \<open>\<^verbatim>\<open>strconv.ParseUint(s, 10, 64)\<close>: the digits are folded from the left into
  an unsigned 64-bit accumulator (an integer here, the overflow checks of the source
  written out); the first byte that is no decimal digit is a syntax
  error, the first step that leaves 64 bits is a range error with the largest value.\<close>

definition isDigit :: "char \<Rightarrow> bool" where
  "isDigit c = (48 \<le> (of_char c :: int) \<and> (of_char c :: int) \<le> 57)"

definition digitVal :: "char \<Rightarrow> int" where
  "digitVal c = of_char c - 48"

definition maxUint64 :: int where
  "maxUint64 = 18446744073709551615"

fun ParseUint_loop :: "int \<Rightarrow> string \<Rightarrow> int \<times> error option" where
  "ParseUint_loop n [] = (n, None)"
| "ParseUint_loop n (c # cs) =
     (if \<not> isDigit c then (0, Some ErrSyntax)
      else if n \<ge> maxUint64 div 10 + 1 then (maxUint64, Some ErrRange)
      else if n * 10 + digitVal c > maxUint64 then (maxUint64, Some ErrRange)
      else ParseUint_loop (n * 10 + digitVal c) cs)"

definition ParseUint :: "string \<Rightarrow> int \<times> error option" where
  "ParseUint s = (if s = [] then (0, Some ErrSyntax) else ParseUint_loop 0 s)"

text \<open>\<^verbatim>\<open>strconv.ParseInt(s, 10, 64)\<close>: an optional sign, then
  \<^verbatim>\<open>ParseUint\<close>; a magnitude outside the signed 64-bit range is a range error
  with the nearest bound.\<close>

definition ParseInt :: "string \<Rightarrow> int \<times> error option" where
  "ParseInt s =
     (if s = [] then (0, Some ErrSyntax)
      else
        let neg = (hd s = CHR ''-'');
            s' = (if hd s = CHR ''+'' \<or> hd s = CHR ''-'' then tl s else s);
            (un, err) = ParseUint s'
        in if err \<noteq> None \<and> err \<noteq> Some ErrRange then (0, err)
           else if \<not> neg \<and> un \<ge> 2 ^ 63 then (2 ^ 63 - 1, Some ErrRange)
           else if neg \<and> un > 2 ^ 63 then (- (2 ^ 63), Some ErrRange)
           else (if neg then - un else un, None))"

text \<open>\<^verbatim>\<open>strconv.ParseBool(str)\<close>\<close>

definition ParseBool :: "string \<Rightarrow> bool \<times> error option" where
  "ParseBool str =
     (if str \<in> set [''1'', ''t'', ''T'', ''TRUE'', ''true'', ''True''] then (True, None)
      else if str \<in> set [''0'', ''f'', ''F'', ''FALSE'', ''false'', ''False''] then (False, None)
      else (False, Some ErrSyntax))"

text \<open>\<^verbatim>\<open>(*big.Int).SetString(str, 10)\<close>: an optional sign and at least one
  decimal digit, nothing else; \<open>None\<close> is the result \<^verbatim>\<open>ok = false\<close>.\<close>

fun digits_value :: "int \<Rightarrow> string \<Rightarrow> int" where
  "digits_value n [] = n"
| "digits_value n (c # cs) = digits_value (n * 10 + digitVal c) cs"

definition SetString :: "string \<Rightarrow> int option" where
  "SetString str =
     (let neg = (str \<noteq> [] \<and> hd str = CHR ''-'');
          ds = (if str \<noteq> [] \<and> (hd str = CHR ''+'' \<or> hd str = CHR ''-'') then tl str else str)
      in if ds = [] \<or> \<not> list_all isDigit ds then None
         else Some (if neg then - digits_value 0 ds else digits_value 0 ds))"

subsection \<open>Messages\<close>

text \<open>
  Modelled from the spec: the \<^verbatim>\<open>Message\<close> interface and its implementations
  (\<^verbatim>\<open>String\<close>, \<^verbatim>\<open>Error\<close>, ..., \<^verbatim>\<open>Attributes\<close>) are declared outside
  resp3.go. Following the data model of the spec, every variant but \<open>Attributes\<close>
  carries an optional attached attribute set (its first field here), a pair of
  parallel key and value sequences; \<^verbatim>\<open>SetAttributes\<close> stores it. A slice of
  messages is a list of optional messages, \<open>None\<close> being the \<^verbatim>\<open>nil\<close> interface
  value. The payload of \<open>Float64\<close> is left abstract (the type parameter).
\<close>

datatype 'f Message =
    String "('f Message option list \<times> 'f Message option list) option" string
  | Error "('f Message option list \<times> 'f Message option list) option" string
  | Int64 "('f Message option list \<times> 'f Message option list) option" int
  | BigInt "('f Message option list \<times> 'f Message option list) option" int
  | Float64 "('f Message option list \<times> 'f Message option list) option" 'f
  | Bool "('f Message option list \<times> 'f Message option list) option" bool
  | Nil "('f Message option list \<times> 'f Message option list) option"
  | Verbatim "('f Message option list \<times> 'f Message option list) option" string string
  | Array "('f Message option list \<times> 'f Message option list) option"
      "'f Message option list"
  | Set "('f Message option list \<times> 'f Message option list) option"
      "'f Message option list"
  | Map "('f Message option list \<times> 'f Message option list) option"
      "'f Message option list" "'f Message option list"
  | Push "('f Message option list \<times> 'f Message option list) option"
      "'f Message option list"
  | Attributes "'f Message option list" "'f Message option list"

type_synonym 'f attrs = "'f Message option list \<times> 'f Message option list"

fun SetAttributes :: "'f Message \<Rightarrow> 'f attrs \<Rightarrow> 'f Message" where
  "SetAttributes (String _ v) a = String (Some a) v"
| "SetAttributes (Error _ v) a = Error (Some a) v"
| "SetAttributes (Int64 _ v) a = Int64 (Some a) v"
| "SetAttributes (BigInt _ v) a = BigInt (Some a) v"
| "SetAttributes (Float64 _ v) a = Float64 (Some a) v"
| "SetAttributes (Bool _ v) a = Bool (Some a) v"
| "SetAttributes (Nil _) a = Nil (Some a)"
| "SetAttributes (Verbatim _ t v) a = Verbatim (Some a) t v"
| "SetAttributes (Array _ v) a = Array (Some a) v"
| "SetAttributes (Set _ v) a = Set (Some a) v"
| "SetAttributes (Map _ k v) a = Map (Some a) k v"
| "SetAttributes (Push _ v) a = Push (Some a) v"
| "SetAttributes (Attributes k v) a = Attributes k v"

subsection \<open>Scalar decoders\<close>

definition simpleString :: "reader \<Rightarrow> (string \<times> error option) outcome \<times> reader" where
  "simpleString i =
     (case ReadBytes LF i of
        ((bs, Some err), i') \<Rightarrow> (Returns ([], Some err), i')
      | ((bs, None), i') \<Rightarrow>
          if int (length bs) - 2 < 0
          then (Panics ''received unexpected simple string message ending without CRLF'', i')
          else (Returns (take (length bs - 2) bs, None), i'))"

definition SimpleString ::
  "reader \<Rightarrow> ('f Message option \<times> error option) outcome \<times> reader"
where
  "SimpleString i =
     andThen (simpleString i) (\<lambda>(v, err) i'.
       if err \<noteq> None then (Returns (None, err), i')
       else (Returns (Some (String None v), None), i'))"

text \<open>\<^verbatim>\<open>number\<close>: when \<^verbatim>\<open>strconv.ParseInt\<close> reports no error the source
  returns \<^verbatim>\<open>0, err\<close>, and \<^verbatim>\<open>v, err\<close> otherwise.\<close>

definition number :: "reader \<Rightarrow> (int \<times> error option) outcome \<times> reader" where
  "number i =
     andThen (simpleString i) (\<lambda>(str, err) i'.
       if err \<noteq> None then (Returns (0, err), i')
       else if str = ''?'' then (Returns (0, Some chunked), i')
       else
         (case ParseInt str of
            (v, None) \<Rightarrow> (Returns (0, None), i')
          | (v, Some err) \<Rightarrow> (Returns (v, Some err), i')))"

definition Number ::
  "reader \<Rightarrow> ('f Message option \<times> error option) outcome \<times> reader"
where
  "Number i =
     andThen (number i) (\<lambda>(v, err) i'.
       if err \<noteq> None then (Returns (None, err), i')
       else (Returns (Some (Int64 None v), None), i'))"

text \<open>\<^verbatim>\<open>blobString\<close>: \<^verbatim>\<open>make([]byte, length)\<close> panics on a negative
  length.\<close>

definition blobString :: "reader \<Rightarrow> (string \<times> error option) outcome \<times> reader" where
  "blobString i =
     andThen (number i) (\<lambda>(len, err) i1.
       if err \<noteq> None then (Returns ([], err), i1)
       else if len < 0 then (Panics ''makeslice: len out of range'', i1)
       else
         (case ReadFull (nat len) i1 of
            ((bs, Some err), i2) \<Rightarrow> (Returns ([], Some err), i2)
          | ((bs, None), i2) \<Rightarrow>
              (case Discard 2 i2 of
                 ((_, Some err), i3) \<Rightarrow> (Returns ([], Some err), i3)
               | ((_, None), i3) \<Rightarrow> (Returns (bs, None), i3))))"

text \<open>The loop of \<^verbatim>\<open>chunkString\<close>, from \<open>n\<close> up to \<open>len\<close>; the
  \<^verbatim>\<open>strings.Builder\<close> is the text written so far.\<close>

function chunkString_loop ::
  "int \<Rightarrow> int \<Rightarrow> string \<Rightarrow> reader \<Rightarrow> (string \<times> error option) \<times> reader"
where
  "chunkString_loop n len sb i =
     (if n < len then
        (case ReadByte i of
           ((b, Some err), i') \<Rightarrow> ((sb, Some err), i')
         | ((b, None), i') \<Rightarrow> chunkString_loop (n + 1) len (sb @ [b]) i')
      else ((sb, None), i))"
  by pat_completeness auto
termination
  by (relation "measure (\<lambda>(n, len, sb, i). nat (len - n))") auto

text \<open>\<^verbatim>\<open>chunkString\<close> returns its pair and the builder; \<^verbatim>\<open>sb.Grow\<close> panics on
  a negative count.\<close>

definition chunkString ::
  "reader \<Rightarrow> string \<Rightarrow> ((int \<times> error option) \<times> string) outcome \<times> reader"
where
  "chunkString i sb =
     (case Discard 1 i of
        ((_, Some err), i1) \<Rightarrow> (Returns ((0, Some err), sb), i1)
      | ((_, None), i1) \<Rightarrow>
          andThen (number i1) (\<lambda>(len, err) i2.
            if err \<noteq> None \<or> len = 0 then (Returns ((0, err), sb), i2)
            else if len < 0 then (Panics ''strings.Builder.Grow: negative count'', i2)
            else
              (case chunkString_loop 0 len sb i2 of
                 ((sb', Some err), i3) \<Rightarrow> (Returns ((0, Some err), sb'), i3)
               | ((sb', None), i3) \<Rightarrow>
                   (case Discard 2 i3 of
                      ((_, Some err), i4) \<Rightarrow> (Returns ((0, Some err), sb'), i4)
                    | ((_, None), i4) \<Rightarrow> (Returns ((len, None), sb'), i4)))))"

text \<open>What each reader operation and scalar helper leaves unread is never longer than
  what it was given, and a chunk that \<^verbatim>\<open>chunkString\<close> reads without error costs
  at least its marker byte: the loop of \<^verbatim>\<open>BlobString\<close> ends for that reason.\<close>

declare chunkString_loop.simps [simp del]

lemma ReadByte_length: "length (snd (ReadByte i)) \<le> length i"
  by (simp add: ReadByte_def split: list.split)

lemma ReadBytes_length: "length (snd (ReadBytes d i)) \<le> length i"
  using length_dropWhile_le [of "\<lambda>c. c \<noteq> d" i]
  by (auto simp: ReadBytes_def)

lemma ReadFull_length: "length (snd (ReadFull n i)) \<le> length i"
  by (simp add: ReadFull_def)

lemma Discard_length: "length (snd (Discard n i)) \<le> length i"
  by (simp add: Discard_def)

lemma Discard_1_consumes:
  "Discard 1 i = ((k, None), i1) \<Longrightarrow> length i1 < length i"
  by (cases i) (auto simp: Discard_def split: if_splits)

lemma andThen_length:
  assumes "length (snd m) \<le> n"
    and "\<And>a j. length j \<le> n \<Longrightarrow> length (snd (k a j)) \<le> n"
  shows "length (snd (andThen m k)) \<le> n"
  using assms by (cases m) (auto simp: andThen_def split: outcome.split)

lemma simpleString_length: "length (snd (simpleString i)) \<le> length i"
  using ReadBytes_length [of LF i]
  by (cases "ReadBytes LF i") (auto simp: simpleString_def split: option.split)

lemma number_length: "length (snd (number i)) \<le> length i"
  unfolding number_def
  by (rule andThen_length [OF simpleString_length])
     (auto split: prod.split option.split)

lemma chunkString_loop_length:
  "length (snd (chunkString_loop n len sb i)) \<le> length i"
proof (induction n len sb i rule: chunkString_loop.induct)
  case (1 n len sb i)
  show ?case
  proof (cases i)
    case Nil
    then show ?thesis by (subst chunkString_loop.simps) (simp add: ReadByte_def)
  next
    case (Cons b i')
    have "length (snd (chunkString_loop (n + 1) len (sb @ [b]) i')) \<le> length i'"
      if "n < len"
      using that Cons by (intro "1.IH") (auto simp: ReadByte_def)
    then show ?thesis
      using Cons by (subst chunkString_loop.simps) (auto simp: ReadByte_def)
  qed
qed

lemma chunkString_length: "length (snd (chunkString i sb)) \<le> length i"
proof -
  obtain r e i1 where d: "Discard 1 i = ((r, e), i1)"
    by (metis surj_pair)
  with Discard_length [of 1 i] have i1: "length i1 \<le> length i"
    by simp
  show ?thesis
  proof (cases e)
    case (Some err)
    with d i1 show ?thesis by (simp add: chunkString_def)
  next
    case None
    show ?thesis
      unfolding chunkString_def d None
      apply (simp only: prod.case option.case)
      apply (rule andThen_length)
      subgoal using number_length [of i1] i1 by simp
      subgoal for a j
        using chunkString_loop_length [of 0 "fst a" sb j]
          Discard_length [of 2 "snd (chunkString_loop 0 (fst a) sb j)"]
        by (auto split: prod.split option.split)
      done
  qed
qed

lemma chunkString_consumes:
  assumes "chunkString i sb = (Returns ((n, None), sb'), i')"
  shows "length i' < length i"
proof -
  obtain r e i1 where d: "Discard 1 i = ((r, e), i1)"
    by (metis surj_pair)
  show ?thesis
  proof (cases e)
    case (Some err)
    with d assms show ?thesis by (simp add: chunkString_def)
  next
    case None
    with d have i1: "length i1 < length i"
      by (simp add: Discard_1_consumes)
    have "length (snd (chunkString i sb)) \<le> length i1"
      unfolding chunkString_def d None
      apply (simp only: prod.case option.case)
      apply (rule andThen_length)
      subgoal using number_length [of i1] by simp
      subgoal for a j
        using chunkString_loop_length [of 0 "fst a" sb j]
          Discard_length [of 2 "snd (chunkString_loop 0 (fst a) sb j)"]
        by (auto split: prod.split option.split)
      done
    with assms i1 show ?thesis by simp
  qed
qed


text \<open>The loop of \<^verbatim>\<open>BlobString\<close> over the chunks, \<open>sb\<close> being the builder.\<close>

function BlobString_chunks ::
  "string \<Rightarrow> reader \<Rightarrow> ('f Message option \<times> error option) outcome \<times> reader"
where
  "BlobString_chunks sb i =
     (case chunkString i sb of
        (Returns ((n, Some err), sb'), i') \<Rightarrow> (Returns (None, Some err), i')
      | (Returns ((n, None), sb'), i') \<Rightarrow>
          if n = 0 then (Returns (Some (String None sb'), None), i')
          else BlobString_chunks sb' i'
      | (Panics p, i') \<Rightarrow> (Panics p, i')
      | (Timeout, i') \<Rightarrow> (Timeout, i'))"
  by pat_completeness auto
termination
  by (relation "measure (\<lambda>(sb, i). length i)") (auto dest: chunkString_consumes sym)

declare BlobString_chunks.simps [simp del]

definition BlobString ::
  "reader \<Rightarrow> ('f Message option \<times> error option) outcome \<times> reader"
where
  "BlobString i =
     andThen (blobString i) (\<lambda>(v, err) i'.
       if err = Some chunked then BlobString_chunks [] i'
       else if err \<noteq> None then (Returns (None, err), i')
       else (Returns (Some (String None v), None), i'))"

definition VerbatimString ::
  "reader \<Rightarrow> ('f Message option \<times> error option) outcome \<times> reader"
where
  "VerbatimString i =
     andThen (blobString i) (\<lambda>(str, err) i'.
       if err \<noteq> None \<or> length str \<le> 4 then (Returns (None, err), i')
       else (Returns (Some (Verbatim None (take 3 str) (drop 4 str)), err), i'))"

definition SimpleError ::
  "reader \<Rightarrow> ('f Message option \<times> error option) outcome \<times> reader"
where
  "SimpleError i =
     andThen (simpleString i) (\<lambda>(v, err) i'.
       if err \<noteq> None then (Returns (None, err), i')
       else (Returns (Some (Error None v), None), i'))"

definition BlobError ::
  "reader \<Rightarrow> ('f Message option \<times> error option) outcome \<times> reader"
where
  "BlobError i =
     andThen (blobString i) (\<lambda>(v, err) i'.
       if err \<noteq> None then (Returns (None, err), i')
       else (Returns (Some (Error None v), None), i'))"

definition BigNumber ::
  "reader \<Rightarrow> ('f Message option \<times> error option) outcome \<times> reader"
where
  "BigNumber i =
     andThen (simpleString i) (\<lambda>(str, err) i'.
       if err \<noteq> None then (Returns (None, err), i')
       else
         (case SetString str of
            None \<Rightarrow> (Panics (''fail to decode the big number: '' @ str), i')
          | Some v \<Rightarrow> (Returns (Some (BigInt None v), None), i')))"

text \<open>\<^verbatim>\<open>strconv.ParseFloat(str, 64)\<close> is the parameter \<open>ParseFloat\<close> of
  \<^verbatim>\<open>Double\<close> and of every decoder that reaches it.\<close>

definition Double ::
  "(string \<Rightarrow> 'f \<times> error option) \<Rightarrow> reader \<Rightarrow>
   ('f Message option \<times> error option) outcome \<times> reader"
where
  "Double ParseFloat i =
     andThen (simpleString i) (\<lambda>(str, err) i'.
       if err \<noteq> None then (Returns (None, err), i')
       else
         (case ParseFloat str of
            (v, None) \<Rightarrow> (Returns (None, None), i')
          | (v, Some err) \<Rightarrow> (Returns (Some (Float64 None v), Some err), i')))"

definition Boolean ::
  "reader \<Rightarrow> ('f Message option \<times> error option) outcome \<times> reader"
where
  "Boolean i =
     andThen (simpleString i) (\<lambda>(str, err) i'.
       if err \<noteq> None then (Returns (None, err), i')
       else
         (case ParseBool str of
            (v, None) \<Rightarrow> (Returns (None, None), i')
          | (v, Some err) \<Rightarrow> (Returns (Some (Bool None v), Some err), i')))"

definition Null ::
  "reader \<Rightarrow> ('f Message option \<times> error option) outcome \<times> reader"
where
  "Null i = (case Discard 2 i of ((_, err), i') \<Rightarrow> (Returns (Some (Nil None), err), i'))"

definition ReadEnd ::
  "reader \<Rightarrow> ('f Message option \<times> error option) outcome \<times> reader"
where
  "ReadEnd i = (case Discard 2 i of ((_, err), i') \<Rightarrow> (Returns (None, err), i'))"

subsection \<open>Aggregate decoders and the top-level reader\<close>

text \<open>
  \<^verbatim>\<open>readArray\<close>, \<^verbatim>\<open>readMap\<close> and \<^verbatim>\<open>ReadNext\<close> call each other. The
  aggregate decoders are written over the decoder of their elements, the parameter
  \<open>ReadNext\<close>; \<^verbatim>\<open>ReadNext\<close> itself is defined last, by recursion on \<open>fuel\<close>,
  which bounds the nesting of aggregates and the number of rounds of each unbounded
  \<^verbatim>\<open>for\<close> loop. A decoder that runs out of it gives \<open>Timeout\<close>; the last
  section shows that this never happens when the fuel exceeds the length of the input.
\<close>

type_synonym 'f decoded = "('f Message option \<times> error option) outcome \<times> reader"

type_synonym 'f slice = "'f Message option list option"

text \<open>The streamed loop of \<^verbatim>\<open>readArray\<close>.\<close>

primrec readArray_chunked ::
  "(reader \<Rightarrow> 'f decoded) \<Rightarrow> nat \<Rightarrow> 'f Message option list \<Rightarrow> reader \<Rightarrow>
   ('f slice \<times> error option) outcome \<times> reader"
where
  "readArray_chunked ReadNext 0 v i = (Timeout, i)"
| "readArray_chunked ReadNext (Suc fuel) v i =
     andThen (ReadNext i) (\<lambda>(n, err) i'.
       if err \<noteq> None then (Returns (None, err), i')
       else if n = None then (Returns (Some v, None), i')
       else readArray_chunked ReadNext fuel (v @ [n]) i')"

text \<open>The counted loop of \<^verbatim>\<open>readArray\<close>, from \<open>n\<close> up to \<open>len\<close>.\<close>

function readArray_fixed ::
  "(reader \<Rightarrow> 'f decoded) \<Rightarrow> int \<Rightarrow> int \<Rightarrow> 'f Message option list \<Rightarrow> reader \<Rightarrow>
   ('f slice \<times> error option) outcome \<times> reader"
where
  "readArray_fixed ReadNext n len v i =
     (if n < len then
        andThen (ReadNext i) (\<lambda>(m, err) i'.
          if err \<noteq> None then (Returns (None, err), i')
          else readArray_fixed ReadNext (n + 1) len (v[nat n := m]) i')
      else (Returns (Some v, None), i))"
  by pat_completeness auto
termination
  by (relation "measure (\<lambda>(ReadNext, n, len, v, i). nat (len - n))") auto

declare readArray_fixed.simps [simp del]

definition readArray ::
  "(reader \<Rightarrow> 'f decoded) \<Rightarrow> nat \<Rightarrow> reader \<Rightarrow> ('f slice \<times> error option) outcome \<times> reader"
where
  "readArray ReadNext fuel i =
     andThen (number i) (\<lambda>(len, err) i1.
       if err = Some chunked then readArray_chunked ReadNext fuel [] i1
       else if err \<noteq> None then (Returns (None, err), i1)
       else if len < 0 then (Panics ''makeslice: len out of range'', i1)
       else readArray_fixed ReadNext 0 len (replicate (nat len) None) i1)"

text \<open>The streamed loop of \<^verbatim>\<open>readMap\<close>.\<close>

primrec readMap_chunked ::
  "(reader \<Rightarrow> 'f decoded) \<Rightarrow> nat \<Rightarrow> 'f Message option list \<Rightarrow> 'f Message option list \<Rightarrow>
   reader \<Rightarrow> (('f slice \<times> 'f slice) \<times> error option) outcome \<times> reader"
where
  "readMap_chunked ReadNext 0 k v i = (Timeout, i)"
| "readMap_chunked ReadNext (Suc fuel) k v i =
     andThen (ReadNext i) (\<lambda>(l, err) i1.
       if err \<noteq> None then (Returns ((None, None), err), i1)
       else if l = None then (Returns ((Some k, Some v), None), i1)
       else
         andThen (ReadNext i1) (\<lambda>(n, err) i2.
           if err \<noteq> None then (Returns ((None, None), err), i2)
           else readMap_chunked ReadNext fuel (k @ [l]) (v @ [n]) i2))"

text \<open>The counted loop of \<^verbatim>\<open>readMap\<close>.\<close>

function readMap_fixed ::
  "(reader \<Rightarrow> 'f decoded) \<Rightarrow> int \<Rightarrow> int \<Rightarrow> 'f Message option list \<Rightarrow>
   'f Message option list \<Rightarrow> reader \<Rightarrow>
   (('f slice \<times> 'f slice) \<times> error option) outcome \<times> reader"
where
  "readMap_fixed ReadNext n len k v i =
     (if n < len then
        andThen (ReadNext i) (\<lambda>(l, err) i1.
          if err \<noteq> None then (Returns ((None, None), err), i1)
          else
            andThen (ReadNext i1) (\<lambda>(m, err) i2.
              if err \<noteq> None then (Returns ((None, None), err), i2)
              else readMap_fixed ReadNext (n + 1) len (k[nat n := l]) (v[nat n := m]) i2))
      else (Returns ((Some k, Some v), None), i))"
  by pat_completeness auto
termination
  by (relation "measure (\<lambda>(ReadNext, n, len, k, v, i). nat (len - n))") auto

declare readMap_fixed.simps [simp del]

definition readMap ::
  "(reader \<Rightarrow> 'f decoded) \<Rightarrow> nat \<Rightarrow> reader \<Rightarrow>
   (('f slice \<times> 'f slice) \<times> error option) outcome \<times> reader"
where
  "readMap ReadNext fuel i =
     andThen (number i) (\<lambda>(len, err) i1.
       if err = Some chunked then readMap_chunked ReadNext fuel [] [] i1
       else if err \<noteq> None then (Returns ((None, None), err), i1)
       else if len < 0 then (Panics ''makeslice: len out of range'', i1)
       else readMap_fixed ReadNext 0 len (replicate (nat len) None)
              (replicate (nat len) None) i1)"

text \<open>A \<^verbatim>\<open>nil\<close> slice stored in a message is the empty sequence.\<close>

definition elems :: "'f slice \<Rightarrow> 'f Message option list" where
  "elems v = (case v of None \<Rightarrow> [] | Some xs \<Rightarrow> xs)"

definition ReadArray :: "(reader \<Rightarrow> 'f decoded) \<Rightarrow> nat \<Rightarrow> reader \<Rightarrow> 'f decoded" where
  "ReadArray ReadNext fuel i =
     andThen (readArray ReadNext fuel i) (\<lambda>(v, err) i'.
       if err \<noteq> None then (Returns (None, err), i')
       else (Returns (Some (Array None (elems v)), None), i'))"

definition ReadSet :: "(reader \<Rightarrow> 'f decoded) \<Rightarrow> nat \<Rightarrow> reader \<Rightarrow> 'f decoded" where
  "ReadSet ReadNext fuel i =
     andThen (readArray ReadNext fuel i) (\<lambda>(v, err) i'.
       if err \<noteq> None then (Returns (None, err), i')
       else (Returns (Some (Set None (elems v)), None), i'))"

definition ReadPush :: "(reader \<Rightarrow> 'f decoded) \<Rightarrow> nat \<Rightarrow> reader \<Rightarrow> 'f decoded" where
  "ReadPush ReadNext fuel i =
     andThen (readArray ReadNext fuel i) (\<lambda>(v, err) i'.
       if err \<noteq> None then (Returns (None, err), i')
       else (Returns (Some (Push None (elems v)), None), i'))"

definition ReadMap :: "(reader \<Rightarrow> 'f decoded) \<Rightarrow> nat \<Rightarrow> reader \<Rightarrow> 'f decoded" where
  "ReadMap ReadNext fuel i =
     andThen (readMap ReadNext fuel i) (\<lambda>((k, v), err) i'.
       if err \<noteq> None then (Returns (None, err), i')
       else (Returns (Some (Map None (elems k) (elems v)), err), i'))"

definition ReadAttributes :: "(reader \<Rightarrow> 'f decoded) \<Rightarrow> nat \<Rightarrow> reader \<Rightarrow> 'f decoded" where
  "ReadAttributes ReadNext fuel i =
     andThen (readMap ReadNext fuel i) (\<lambda>((k, v), err) i'.
       if err \<noteq> None then (Returns (None, err), i')
       else (Returns (Some (Attributes (elems k) (elems v)), err), i'))"

text \<open>The table \<^verbatim>\<open>readFns\<close>, applied to the reader: \<open>None\<close> for a byte that is not
  a key of the table.\<close>

definition readFns ::
  "(string \<Rightarrow> 'f \<times> error option) \<Rightarrow> (reader \<Rightarrow> 'f decoded) \<Rightarrow> nat \<Rightarrow> char \<Rightarrow> reader \<Rightarrow>
   'f decoded option"
where
  "readFns ParseFloat ReadNext fuel t i =
     (if t = CHR ''$'' then Some (BlobString i)
      else if t = CHR ''+'' then Some (SimpleString i)
      else if t = CHR ''-'' then Some (SimpleError i)
      else if t = CHR '':'' then Some (Number i)
      else if t = CHR ''_'' then Some (Null i)
      else if t = CHR '','' then Some (Double ParseFloat i)
      else if t = CHR ''#'' then Some (Boolean i)
      else if t = CHR ''!'' then Some (BlobError i)
      else if t = CHR ''='' then Some (VerbatimString i)
      else if t = CHR ''('' then Some (BigNumber i)
      else if t = CHR ''*'' then Some (ReadArray ReadNext fuel i)
      else if t = CHR ''%'' then Some (ReadMap ReadNext fuel i)
      else if t = CHR ''~'' then Some (ReadSet ReadNext fuel i)
      else if t = CHR ''|'' then Some (ReadAttributes ReadNext fuel i)
      else if t = CHR ''>'' then Some (ReadPush ReadNext fuel i)
      else if t = CHR ''.'' then Some (ReadEnd i)
      else None)"

text \<open>The conversion \<^verbatim>\<open>string(t)\<close> of a byte: the UTF-8 encoding of the code point
  \<open>t\<close>, one byte below 0x80 and two bytes from 0x80 on.\<close>

definition string_of_byte :: "char \<Rightarrow> string" where
  "string_of_byte t =
     (if (of_char t :: nat) < 128 then [t]
      else [char_of (192 + (of_char t :: nat) div 64),
            char_of (128 + (of_char t :: nat) mod 64)])"

text \<open>The loop of \<^verbatim>\<open>ReadNext\<close>, \<open>attrs\<close> being its local variable. A nested
  message is decoded by \<^verbatim>\<open>ReadNext\<close> again, which enters the loop with no pending
  attributes. \<^verbatim>\<open>msg.SetAttributes\<close> on the \<^verbatim>\<open>nil\<close> interface value panics.\<close>

primrec ReadNext_loop ::
  "(string \<Rightarrow> 'f \<times> error option) \<Rightarrow> nat \<Rightarrow> 'f attrs option \<Rightarrow> reader \<Rightarrow> 'f decoded"
where
  "ReadNext_loop ParseFloat 0 attrs i = (Timeout, i)"
| "ReadNext_loop ParseFloat (Suc fuel) attrs i =
     (case ReadByte i of
        ((t, Some err), i1) \<Rightarrow> (Returns (None, Some err), i1)
      | ((t, None), i1) \<Rightarrow>
          (case readFns ParseFloat (ReadNext_loop ParseFloat fuel None) fuel t i1 of
             None \<Rightarrow> (Panics (''received unknown message type: '' @ string_of_byte t), i1)
           | Some r \<Rightarrow>
               andThen r (\<lambda>(msg, err) i2.
                 if err \<noteq> None then (Returns (None, err), i2)
                 else if t = CHR ''|'' then
                   (case msg of
                      Some (Attributes k v) \<Rightarrow> ReadNext_loop ParseFloat fuel (Some (k, v)) i2
                    | _ \<Rightarrow> (Panics ''interface conversion: Message is not *Attributes'', i2))
                 else
                   (case attrs of
                      Some a \<Rightarrow>
                        (case msg of
                           None \<Rightarrow>
                             (Panics ''invalid memory address or nil pointer dereference'', i2)
                         | Some m \<Rightarrow> (Returns (Some (SetAttributes m a), None), i2))
                    | None \<Rightarrow> (Returns (msg, None), i2)))))"

definition ReadNext ::
  "(string \<Rightarrow> 'f \<times> error option) \<Rightarrow> nat \<Rightarrow> reader \<Rightarrow> 'f decoded"
where
  "ReadNext ParseFloat fuel i = ReadNext_loop ParseFloat fuel None i"



subsection \<open>Bounds used for the fuel\<close>

text \<open>\<open>within n r\<close>: the decoding \<open>r\<close> did not run out of fuel and leaves at most
  \<open>n\<close> bytes unread. \<open>consuming rn N\<close>: on inputs of at most \<open>N\<close> bytes the element
  decoder \<open>rn\<close> does not run out of fuel, never lengthens the input, and consumes at
  least one byte whenever it returns without an error.\<close>

definition within :: "nat \<Rightarrow> 'a outcome \<times> reader \<Rightarrow> bool" where
  "within n r \<longleftrightarrow> fst r \<noteq> Timeout \<and> length (snd r) \<le> n"

definition consuming :: "(reader \<Rightarrow> 'f decoded) \<Rightarrow> nat \<Rightarrow> bool" where
  "consuming rn N \<longleftrightarrow>
     (\<forall>j. length j \<le> N \<longrightarrow>
        fst (rn j) \<noteq> Timeout \<and> length (snd (rn j)) \<le> length j \<and>
        (\<forall>m. fst (rn j) = Returns (m, None) \<longrightarrow> length (snd (rn j)) < length j))"

subsection \<open>Streams of elements\<close>

text \<open>What the stream holds, for the properties of the streamed loops.
  \<open>decodes_elements rn ms j\<close> is \<open>Some j'\<close> when the element decoder \<open>rn\<close>, started
  at \<open>j\<close>, decodes the messages \<open>ms\<close> one after the other, each without an error,
  and leaves \<open>j'\<close>. \<open>decodes_pairs rn kvs j\<close> is the same for key and value pairs: a
  key is a message, a value may be the \<^verbatim>\<open>nil\<close> message.\<close>

primrec decodes_elements ::
  "(reader \<Rightarrow> 'f decoded) \<Rightarrow> 'f Message list \<Rightarrow> reader \<Rightarrow> reader option"
where
  "decodes_elements rn [] j = Some j"
| "decodes_elements rn (m # ms) j =
     (if fst (rn j) = Returns (Some m, None) then decodes_elements rn ms (snd (rn j))
      else None)"


section \<open>Properties\<close>

subsection \<open>Evaluation rules and basic facts\<close>

lemmas reader_defs =
  ReadByte_def ReadBytes_def ReadFull_def Discard_def LF_def CR_def CRLF_def

lemmas parse_defs =
  ParseInt_def ParseUint_def isDigit_def digitVal_def maxUint64_def ParseBool_def
  SetString_def

lemmas scalar_defs =
  andThen_def simpleString_def SimpleString_def number_def Number_def blobString_def
  chunkString_def BlobString_def VerbatimString_def SimpleError_def BlobError_def
  BigNumber_def Double_def Boolean_def Null_def ReadEnd_def

lemmas aggregate_defs =
  readArray_def readMap_def elems_def ReadArray_def ReadSet_def ReadPush_def ReadMap_def
  ReadAttributes_def readFns_def ReadNext_def

lemmas loop_simps =
  chunkString_loop.simps BlobString_chunks.simps readArray_fixed.simps readMap_fixed.simps

text \<open>Whenever \<^verbatim>\<open>number\<close> returns without an error, it returns 0: the parsed value
  is dropped on the path where \<^verbatim>\<open>ParseInt\<close> succeeds. A blob read by
  \<^verbatim>\<open>blobString\<close> without an error is therefore empty.\<close>

lemma number_ok_zero: "number i = (Returns (v, None), i') \<Longrightarrow> v = 0"
  by (auto simp: number_def andThen_def
      split: prod.splits outcome.splits option.splits if_splits)

lemma blobString_ok_empty: "blobString i = (Returns (str, None), i') \<Longrightarrow> str = []"
  by (auto simp: blobString_def andThen_def ReadFull_def dest!: number_ok_zero
      split: prod.splits outcome.splits option.splits if_splits)

lemma readFns_unknown:
  "t \<notin> set ''$+-:_,#!=(*%~|>.'' \<Longrightarrow> readFns ParseFloat rn fuel t i = None"
  by (simp add: readFns_def)

subsection \<open>Integer lines\<close>

text \<open>
  C1. The claim: the integer-line decoder returns the integer \<open>n\<close> that the line
  denotes, so that \<^verbatim>\<open>:1\r\n\<close> decodes to Int64(1) and \<^verbatim>\<open>*2\r\n:1\r\n:2\r\n\<close> to
  Array([Int64(1), Int64(2)]). The code does not: the line \<^verbatim>\<open>1\<close> is a valid integer
  for \<^verbatim>\<open>ParseInt\<close>, yet \<^verbatim>\<open>:1\r\n\<close> decodes to Int64(0), and the array of
  declared length 2 decodes to the empty array with both elements left unread.
\<close>

theorem C1_number_drops_parsed_value:
  "ParseInt ''1'' = (1, None) \<and>
   ReadNext ParseFloat (Suc fuel) ('':1'' @ CRLF) =
     (Returns (Some (Int64 None 0), None), []) \<and>
   ReadNext ParseFloat (Suc fuel) (''*2'' @ CRLF @ '':1'' @ CRLF @ '':2'' @ CRLF) =
     (Returns (Some (Array None []), None), '':1'' @ CRLF @ '':2'' @ CRLF)"
  by (simp add: reader_defs parse_defs scalar_defs aggregate_defs loop_simps)

subsection \<open>Blob strings\<close>

text \<open>
  C2. The claim: a fixed-length blob string, encoded as tag, declared length, that many
  payload bytes and the terminator, decodes to a String holding exactly the payload, so
  that \<^verbatim>\<open>$5\r\nhello\r\n\<close> decodes to String("hello"). The code does not: it decodes
  to the empty String, and the two bytes skipped as the terminator are the first two
  bytes of the payload; the rest of the payload is left unread.
\<close>

theorem C2_fixed_blob_loses_payload:
  "ReadNext ParseFloat (Suc fuel) (''$5'' @ CRLF @ ''hello'' @ CRLF) =
     (Returns (Some (String None []), None), ''llo'' @ CRLF)"
  by (simp add: reader_defs parse_defs scalar_defs aggregate_defs loop_simps)

text \<open>
  C3. The claim: a streamed blob string decodes to the concatenation of its chunks, so
  that \<^verbatim>\<open>$?\r\n;5\r\nHello\r\n;5\r\nWorld\r\n;0\r\n\<close> decodes to String("HelloWorld").
  The code does not: the length line of the first chunk is read as 0, which ends the
  stream, and the result is the empty String with every chunk payload left unread.
\<close>

theorem C3_streamed_blob_loses_chunks:
  "ReadNext ParseFloat (Suc fuel)
     (''$?'' @ CRLF @ '';5'' @ CRLF @ ''Hello'' @ CRLF @ '';5'' @ CRLF @ ''World'' @ CRLF
        @ '';0'' @ CRLF) =
     (Returns (Some (String None []), None),
      ''Hello'' @ CRLF @ '';5'' @ CRLF @ ''World'' @ CRLF @ '';0'' @ CRLF)"
  by (simp add: reader_defs parse_defs scalar_defs aggregate_defs loop_simps)

subsection \<open>Aggregates\<close>

text \<open>
  C4. The claim: the fixed-count and the streamed encoding of the same sequence decode
  to the same Message tree, so that \<^verbatim>\<open>*?\r\n:1\r\n:2\r\n.\r\n\<close> and
  \<^verbatim>\<open>*2\r\n:1\r\n:2\r\n\<close> both decode to Array([Int64(1), Int64(2)]). The code does
  not: the streamed form decodes to an array of two elements (each Int64(0)), the fixed
  form to the empty array.
\<close>

theorem C4_fixed_and_streamed_differ:
  "ReadNext ParseFloat (Suc (Suc (Suc (Suc fuel))))
     (''*?'' @ CRLF @ '':1'' @ CRLF @ '':2'' @ CRLF @ ''.'' @ CRLF) =
     (Returns (Some (Array None [Some (Int64 None 0), Some (Int64 None 0)]), None), []) \<and>
   ReadNext ParseFloat (Suc (Suc (Suc (Suc fuel))))
     (''*2'' @ CRLF @ '':1'' @ CRLF @ '':2'' @ CRLF) =
     (Returns (Some (Array None []), None), '':1'' @ CRLF @ '':2'' @ CRLF)"
  by (simp add: reader_defs parse_defs scalar_defs aggregate_defs loop_simps)

subsection \<open>Attributes\<close>

text \<open>
  C5. The claim: a message preceded by one attribute block is returned with that block
  attached, so that \<^verbatim>\<open>|1\r\n+ttl\r\n:100\r\n+PONG\r\n\<close> decodes to String("PONG")
  with the attributes {("ttl", Int64(100))}. The code does not: the attribute block of
  declared length 1 is read as an empty block, its key \<^verbatim>\<open>+ttl\<close> is taken for the
  message, and the result is String("ttl") with an empty attribute set; the value and
  the message PONG are left unread.
\<close>

theorem C5_attribute_block_example:
  "ReadNext ParseFloat (Suc (Suc fuel))
     (''|1'' @ CRLF @ ''+ttl'' @ CRLF @ '':100'' @ CRLF @ ''+PONG'' @ CRLF) =
     (Returns (Some (String (Some ([], [])) ''ttl''), None),
      '':100'' @ CRLF @ ''+PONG'' @ CRLF)"
  by (simp add: reader_defs parse_defs scalar_defs aggregate_defs loop_simps)

text \<open>What the loop of \<^verbatim>\<open>ReadNext\<close> does with attribute blocks, whatever their
  content: a block replaces the pending one, and the message that follows gets the
  pending block, or is returned as decoded when none is pending. A streamed block is
  decoded and attached (its value through \<^verbatim>\<open>number\<close>, hence 0).\<close>

lemma ReadNext_loop_block_replaces_pending:
  assumes "ReadAttributes (ReadNext_loop ParseFloat fuel None) fuel i =
      (Returns (Some (Attributes k v), None), i')"
  shows "ReadNext_loop ParseFloat (Suc fuel) pending (CHR ''|'' # i) =
      ReadNext_loop ParseFloat fuel (Some (k, v)) i'"
  using assms by (simp add: ReadByte_def readFns_def andThen_def)

lemma ReadNext_loop_attaches_pending:
  assumes "readFns ParseFloat (ReadNext_loop ParseFloat fuel None) fuel t i =
      Some (Returns (Some m, None), i')"
    and "t \<noteq> CHR ''|''"
  shows "ReadNext_loop ParseFloat (Suc fuel) (Some a) (t # i) =
      (Returns (Some (SetAttributes m a), None), i')"
    and "ReadNext_loop ParseFloat (Suc fuel) None (t # i) = (Returns (Some m, None), i')"
  using assms by (simp_all add: ReadByte_def andThen_def)

lemma streamed_attribute_block_example:
  "ReadNext ParseFloat (Suc (Suc (Suc (Suc (Suc fuel)))))
     (''|?'' @ CRLF @ ''+ttl'' @ CRLF @ '':100'' @ CRLF @ ''.'' @ CRLF @ ''+PONG'' @ CRLF) =
     (Returns (Some (String (Some ([Some (String None ''ttl'')], [Some (Int64 None 0)]))
        ''PONG''), None), [])"
  by (simp add: reader_defs parse_defs scalar_defs aggregate_defs loop_simps)

subsection \<open>Protocol violations\<close>

text \<open>
  C6. An unrecognised tag byte read by \<^verbatim>\<open>ReadNext\<close> (whatever attributes are
  pending) and a line that \<^verbatim>\<open>BigNumber\<close> cannot read as a big integer both end the
  decoding with a panic, an outcome that is no returned error; after an unknown tag
  byte the reader stands right behind that byte, and after a malformed big integer
  right behind its line. The panic text ends with \<^verbatim>\<open>string(t)\<close>, respectively with
  the line.
\<close>

theorem C6_protocol_violation_panics:
  "(t \<notin> set ''$+-:_,#!=(*%~|>.'' \<longrightarrow>
      ReadNext_loop ParseFloat (Suc fuel) attrs (t # i) =
        (Panics (''received unknown message type: '' @ string_of_byte t), i) \<and>
      ReadNext ParseFloat (Suc fuel) (t # i) =
        (Panics (''received unknown message type: '' @ string_of_byte t), i)) \<and>
   (simpleString j = (Returns (str, None), j') \<and> SetString str = None \<longrightarrow>
      (BigNumber j :: 'f decoded) = (Panics (''fail to decode the big number: '' @ str), j') \<and>
      ReadNext ParseFloat (Suc fuel) (CHR ''('' # j) =
        (Panics (''fail to decode the big number: '' @ str), j'))"
proof (intro conjI impI)
  assume t: "t \<notin> set ''$+-:_,#!=(*%~|>.''"
  show l: "ReadNext_loop ParseFloat (Suc fuel) attrs (t # i) =
      (Panics (''received unknown message type: '' @ string_of_byte t), i)" for attrs
    by (simp add: ReadByte_def readFns_unknown [OF t])
  show "ReadNext ParseFloat (Suc fuel) (t # i) =
      (Panics (''received unknown message type: '' @ string_of_byte t), i)"
    by (simp only: ReadNext_def l)
next
  assume a: "simpleString j = (Returns (str, None), j') \<and> SetString str = None"
  then show b: "(BigNumber j :: 'g decoded) =
      (Panics (''fail to decode the big number: '' @ str), j')" for dummy :: 'g
    by (simp add: BigNumber_def andThen_def)
  show "ReadNext ParseFloat (Suc fuel) (CHR ''('' # j) =
      (Panics (''fail to decode the big number: '' @ str), j')"
    by (simp add: ReadNext_def ReadByte_def readFns_def b andThen_def)
qed

theorem C6_protocol_violation_panics_witness:
  "CHR ''x'' \<notin> set ''$+-:_,#!=(*%~|>.'' \<and>
   ReadNext (\<lambda>s. (0::int, Some ErrSyntax)) (Suc 0) (CHR ''x'' # ''abc'') =
     (Panics ''received unknown message type: x'', ''abc'') \<and>
   CHR 0xE9 \<notin> set ''$+-:_,#!=(*%~|>.'' \<and>
   ReadNext (\<lambda>s. (0::int, Some ErrSyntax)) (Suc 0) (CHR 0xE9 # ''abc'') =
     (Panics (''received unknown message type: '' @ [CHR 0xC3, CHR 0xA9]), ''abc'') \<and>
   simpleString (''12a'' @ CRLF @ ''+OK'' @ CRLF) = (Returns (''12a'', None), ''+OK'' @ CRLF) \<and>
   SetString ''12a'' = None \<and>
   ReadNext (\<lambda>s. (0::int, Some ErrSyntax)) (Suc 0)
       (CHR ''('' # ''12a'' @ CRLF @ ''+OK'' @ CRLF) =
     (Panics ''fail to decode the big number: 12a'', ''+OK'' @ CRLF)"
proof -
  let ?pf = "\<lambda>s. (0::int, Some ErrSyntax)"
  have h1: "CHR ''x'' \<notin> set ''$+-:_,#!=(*%~|>.''"
    by simp
  have h1': "CHR 0xE9 \<notin> set ''$+-:_,#!=(*%~|>.''"
    by simp
  have h2: "simpleString (''12a'' @ CRLF @ ''+OK'' @ CRLF) =
      (Returns (''12a'', None), ''+OK'' @ CRLF)"
    by (simp add: reader_defs scalar_defs)
  have h3: "SetString ''12a'' = None"
    by (simp add: parse_defs)
  have s1: "''received unknown message type: '' @ string_of_byte (CHR ''x'') =
      ''received unknown message type: x''"
    by (simp add: string_of_byte_def)
  have s2: "string_of_byte (CHR 0xE9) = [CHR 0xC3, CHR 0xA9]"
    by code_simp
  have s3: "''fail to decode the big number: '' @ ''12a'' = ''fail to decode the big number: 12a''"
    by simp
  note a = C6_protocol_violation_panics [where t = "CHR ''x''" and ParseFloat = ?pf
      and fuel = 0 and attrs = None and i = "''abc''"
      and j = "''12a'' @ CRLF @ ''+OK'' @ CRLF" and str = "''12a''" and j' = "''+OK'' @ CRLF"]
  note b = C6_protocol_violation_panics [where t = "CHR 0xE9" and ParseFloat = ?pf
      and fuel = 0 and attrs = None and i = "''abc''"]
  from a h1 h2 h3
  have "ReadNext ?pf (Suc 0) (CHR ''x'' # ''abc'') =
      (Panics ''received unknown message type: x'', ''abc'')"
    and "ReadNext ?pf (Suc 0) (CHR ''('' # ''12a'' @ CRLF @ ''+OK'' @ CRLF) =
      (Panics ''fail to decode the big number: 12a'', ''+OK'' @ CRLF)"
    unfolding s1 s3 by blast+
  moreover from b h1'
  have "ReadNext ?pf (Suc 0) (CHR 0xE9 # ''abc'') =
      (Panics (''received unknown message type: '' @ [CHR 0xC3, CHR 0xA9]), ''abc'')"
    unfolding s2 by blast
  ultimately show ?thesis
    using h1 h1' h2 h3 by blast
qed

subsection \<open>Failing aggregates\<close>







text \<open>The streamed loops, after the elements (pairs) that decode: they go on from where
  these end, with the decoded messages appended in order.\<close>

lemma andThen_Returns: "fst m = Returns a \<Longrightarrow> andThen m k = k a (snd m)"
  by (cases m) (simp add: andThen_def)

lemma readArray_chunked_decodes:
  "decodes_elements rn ms j = Some jk \<Longrightarrow>
   readArray_chunked rn (length ms + fuel) acc j =
     readArray_chunked rn fuel (acc @ map Some ms) jk"
proof (induction ms arbitrary: acc j)
  case Nil
  then show ?case by simp
next
  case (Cons m ms)
  from Cons.prems have r: "fst (rn j) = Returns (Some m, None)"
    and d: "decodes_elements rn ms (snd (rn j)) = Some jk"
    by (auto split: if_splits)
  have "readArray_chunked rn (length (m # ms) + fuel) acc j =
      readArray_chunked rn (length ms + fuel) (acc @ [Some m]) (snd (rn j))"
    by (simp add: andThen_Returns [OF r])
  also have "\<dots> = readArray_chunked rn fuel ((acc @ [Some m]) @ map Some ms) jk"
    by (rule Cons.IH [OF d])
  finally show ?case by simp
qed









text \<open>A streamed loop that reaches the stream end returns every decoded message, in
  order.\<close>

lemma readArray_chunked_ends:
  assumes "decodes_elements rn ms j = Some jk" and "rn jk = (Returns (None, None), j')"
  shows "readArray_chunked rn (Suc (length ms + fuel)) acc j =
    (Returns (Some (acc @ map Some ms), None), j')"
proof -
  have "readArray_chunked rn (length ms + Suc fuel) acc j =
      readArray_chunked rn (Suc fuel) (acc @ map Some ms) jk"
    by (rule readArray_chunked_decodes [OF assms(1)])
  with assms(2) show ?thesis
    by (simp add: andThen_def)
qed

subsection \<open>The stream-end tag\<close>

text \<open>
  C8, as stated: decoding the stream-end tag always returns nothing with no error. It
  does not: \<^verbatim>\<open>ReadEnd\<close> returns the error of \<^verbatim>\<open>Discard(2)\<close>, so at the end of the
  stream the result is nothing together with \<^verbatim>\<open>io.EOF\<close>.
\<close>

theorem C8_stream_end_at_eof_counterexample:
  "(ReadEnd [] :: unit decoded) = (Returns (None, Some EOF), []) \<and>
   ReadNext (\<lambda>s. ((), Some ErrSyntax)) (Suc 0) ''.'' = (Returns (None, Some EOF), [])"
  by (simp add: reader_defs scalar_defs aggregate_defs)

text \<open>
  C8, amended: when at least two bytes follow the stream-end tag, \<^verbatim>\<open>ReadEnd\<close>
  skips exactly those two bytes and returns nothing with no error, and \<^verbatim>\<open>ReadNext\<close>,
  reading the tag with no attribute block pending, returns that same result: no
  message is surfaced. The result differs from a decoded Nil message and from every
  failure. When fewer than two bytes follow the tag, \<^verbatim>\<open>ReadEnd\<close> returns nothing
  together with \<^verbatim>\<open>io.EOF\<close>.
\<close>

theorem C8_stream_end_returns_nothing:
  "(2 \<le> length i \<longrightarrow>
      (ReadEnd i :: 'f decoded) = (Returns (None, None), drop 2 i) \<and>
      ReadNext ParseFloat (Suc fuel) (CHR ''.'' # i) = (Returns (None, None), drop 2 i) \<and>
      ReadNext ParseFloat (Suc fuel) (CHR ''.'' # i) \<noteq> (Null i :: 'f decoded) \<and>
      (\<forall>e. fst (ReadNext ParseFloat (Suc fuel) (CHR ''.'' # i)) \<noteq> Returns (None, Some e)) \<and>
      (\<forall>p. fst (ReadNext ParseFloat (Suc fuel) (CHR ''.'' # i)) \<noteq> Panics p)) \<and>
   (length i < 2 \<longrightarrow>
      (ReadEnd i :: 'f decoded) = (Returns (None, Some EOF), []) \<and>
      ReadNext ParseFloat (Suc fuel) (CHR ''.'' # i) = (Returns (None, Some EOF), []))"
proof (intro conjI impI)
  assume len: "2 \<le> length i"
  then show e: "(ReadEnd i :: 'g decoded) = (Returns (None, None), drop 2 i)"
    for dummy :: 'g
    by (simp add: ReadEnd_def Discard_def)
  show n: "ReadNext ParseFloat (Suc fuel) (CHR ''.'' # i) = (Returns (None, None), drop 2 i)"
    by (simp add: ReadNext_def ReadByte_def readFns_def e andThen_def)
  from len have "(Null i :: 'f decoded) = (Returns (Some (Nil None), None), drop 2 i)"
    by (simp add: Null_def Discard_def)
  with n show "ReadNext ParseFloat (Suc fuel) (CHR ''.'' # i) \<noteq> (Null i :: 'f decoded)"
    by simp
  from n show "\<forall>e. fst (ReadNext ParseFloat (Suc fuel) (CHR ''.'' # i)) \<noteq>
      Returns (None, Some e)"
    by simp
  from n show "\<forall>p. fst (ReadNext ParseFloat (Suc fuel) (CHR ''.'' # i)) \<noteq> Panics p"
    by simp
next
  assume "length i < 2"
  then show e: "(ReadEnd i :: 'g decoded) = (Returns (None, Some EOF), [])"
    for dummy :: 'g
    by (simp add: ReadEnd_def Discard_def)
  show "ReadNext ParseFloat (Suc fuel) (CHR ''.'' # i) = (Returns (None, Some EOF), [])"
    by (simp add: ReadNext_def ReadByte_def readFns_def e andThen_def)
qed

theorem C8_stream_end_returns_nothing_witness:
  "2 \<le> length (CRLF @ ''+OK'' @ CRLF) \<and>
   (ReadEnd (CRLF @ ''+OK'' @ CRLF) :: unit decoded) =
     (Returns (None, None), ''+OK'' @ CRLF) \<and>
   ReadNext (\<lambda>s. ((), Some ErrSyntax)) (Suc 0) (CHR ''.'' # CRLF @ ''+OK'' @ CRLF) =
     (Returns (None, None), ''+OK'' @ CRLF) \<and>
   length [CR] < 2 \<and>
   ReadNext (\<lambda>s. ((), Some ErrSyntax)) (Suc 0) (CHR ''.'' # [CR]) =
     (Returns (None, Some EOF), [])"
proof -
  have h: "2 \<le> length (CRLF @ ''+OK'' @ CRLF)"
    by (simp add: CRLF_def)
  have d: "drop 2 (CRLF @ ''+OK'' @ CRLF) = ''+OK'' @ CRLF"
    by (simp add: CRLF_def)
  have s: "length [CR] < 2"
    by simp
  note a = C8_stream_end_returns_nothing [where 'f = unit
      and i = "CRLF @ ''+OK'' @ CRLF" and ParseFloat = "\<lambda>s. ((), Some ErrSyntax)" and fuel = 0]
  note b = C8_stream_end_returns_nothing [where 'f = unit
      and i = "[CR]" and ParseFloat = "\<lambda>s. ((), Some ErrSyntax)" and fuel = 0]
  from a h have "(ReadEnd (CRLF @ ''+OK'' @ CRLF) :: unit decoded) =
      (Returns (None, None), ''+OK'' @ CRLF)"
    and "ReadNext (\<lambda>s. ((), Some ErrSyntax)) (Suc 0) (CHR ''.'' # CRLF @ ''+OK'' @ CRLF) =
      (Returns (None, None), ''+OK'' @ CRLF)"
    unfolding d by blast+
  moreover from b s
  have "ReadNext (\<lambda>s. ((), Some ErrSyntax)) (Suc 0) (CHR ''.'' # [CR]) =
      (Returns (None, Some EOF), [])"
    by blast
  ultimately show ?thesis
    using h s by blast
qed

text \<open>With an attribute block pending, the stream-end tag makes \<^verbatim>\<open>ReadNext\<close> call
  \<^verbatim>\<open>SetAttributes\<close> on the \<^verbatim>\<open>nil\<close> message: the decoding panics. Here the block is
  the empty streamed block \<^verbatim>\<open>|?\r\n.\r\n\<close>.\<close>

lemma stream_end_after_attributes_panics:
  "ReadNext ParseFloat (Suc (Suc (Suc fuel))) (''|?'' @ CRLF @ ''.'' @ CRLF @ ''.'' @ CRLF) =
     (Panics ''invalid memory address or nil pointer dereference'', [])"
  by (simp add: reader_defs parse_defs scalar_defs aggregate_defs)

subsection \<open>Verbatim strings\<close>

text \<open>
  C9. The claim: a verbatim string whose blob is longer than 4 bytes decodes to a
  Verbatim message whose type is the first 3 bytes of the blob and whose text is what
  follows its 4th byte; a blob of at most 4 bytes gives no message and no error. The
  code does not build the message: \<^verbatim>\<open>=15\r\ntxt:Some string\r\n\<close> decodes to no
  message and no error, the two bytes skipped as the terminator are the first two bytes
  of the payload, and the rest of the payload is left unread.
\<close>

theorem C9_verbatim_payload_lost:
  "ReadNext ParseFloat (Suc fuel) (''=15'' @ CRLF @ ''txt:Some string'' @ CRLF) =
     (Returns (None, None), ''t:Some string'' @ CRLF)"
  by (simp add: reader_defs parse_defs scalar_defs aggregate_defs loop_simps)

text \<open>No input makes \<^verbatim>\<open>VerbatimString\<close> return a message: the blob it reads without
  an error is empty. A blob of at most 4 bytes is skipped as the claim says, and the
  error of a failed blob read is returned with no message.\<close>

lemma VerbatimString_never_message:
  "(VerbatimString i :: 'f decoded) \<noteq> (Returns (Some m, e), i')"
proof
  assume a: "(VerbatimString i :: 'f decoded) = (Returns (Some m, e), i')"
  then obtain str where "blobString i = (Returns (str, None), i')" and "4 < length str"
    by (auto simp: VerbatimString_def andThen_def
        split: prod.splits outcome.splits if_splits)
  then show False
    by (auto dest: blobString_ok_empty)
qed

lemma VerbatimString_short_blob:
  "blobString i = (Returns (str, None), i') \<Longrightarrow> length str \<le> 4 \<Longrightarrow>
   (VerbatimString i :: 'f decoded) = (Returns (None, None), i')"
  by (simp add: VerbatimString_def andThen_def)

lemma VerbatimString_failed_read:
  "blobString i = (Returns (str, Some e), i') \<Longrightarrow>
   (VerbatimString i :: 'f decoded) = (Returns (None, Some e), i')"
  by (simp add: VerbatimString_def andThen_def)

subsection \<open>Booleans and doubles\<close>

text \<open>
  C10. When the line read by \<^verbatim>\<open>Boolean\<close> is one of the tokens that
  \<^verbatim>\<open>ParseBool\<close> accepts, or the line read by \<^verbatim>\<open>Double\<close> is a text that
  \<^verbatim>\<open>ParseFloat\<close> parses without error, the decoder returns no message and no error,
  and so does \<^verbatim>\<open>ReadNext\<close>: its outcome is the outcome it has for the stream-end
  tag. \<^verbatim>\<open>Boolean\<close> and \<^verbatim>\<open>Double\<close> return a message only together with an error,
  and \<^verbatim>\<open>ReadNext\<close> never returns a message for their tags.
\<close>

theorem C10_parsed_scalar_is_dropped:
  "(simpleString i = (Returns (str, None), i') \<longrightarrow>
      (str \<in> set [''1'', ''t'', ''T'', ''TRUE'', ''true'', ''True'',
                  ''0'', ''f'', ''F'', ''FALSE'', ''false'', ''False''] \<longrightarrow>
         (Boolean i :: 'f decoded) = (Returns (None, None), i') \<and>
         ReadNext ParseFloat (Suc fuel) (CHR ''#'' # i) = (Returns (None, None), i') \<and>
         (2 \<le> length j \<longrightarrow>
            fst (ReadNext ParseFloat (Suc fuel) (CHR ''#'' # i)) =
            fst (ReadNext ParseFloat (Suc fuel) (CHR ''.'' # j)))) \<and>
      (snd (ParseFloat str) = None \<longrightarrow>
         Double ParseFloat i = (Returns (None, None), i') \<and>
         ReadNext ParseFloat (Suc fuel) (CHR '','' # i) = (Returns (None, None), i') \<and>
         (2 \<le> length j \<longrightarrow>
            fst (ReadNext ParseFloat (Suc fuel) (CHR '','' # i)) =
            fst (ReadNext ParseFloat (Suc fuel) (CHR ''.'' # j))))) \<and>
   ((Boolean i :: 'f decoded) = (Returns (Some m, err), k) \<longrightarrow> err \<noteq> None) \<and>
   (Double ParseFloat i = (Returns (Some m, err), k) \<longrightarrow> err \<noteq> None) \<and>
   (\<forall>m err k. ReadNext ParseFloat (Suc fuel) (CHR ''#'' # i) \<noteq> (Returns (Some m, err), k)) \<and>
   (\<forall>m err k. ReadNext ParseFloat (Suc fuel) (CHR '','' # i) \<noteq> (Returns (Some m, err), k))"
proof (intro conjI impI allI)
  assume s: "simpleString i = (Returns (str, None), i')"
  {
    assume "str \<in> set [''1'', ''t'', ''T'', ''TRUE'', ''true'', ''True'',
                  ''0'', ''f'', ''F'', ''FALSE'', ''false'', ''False'']"
    then have p: "snd (ParseBool str) = None"
      by (auto simp: ParseBool_def)
    with s show b: "(Boolean i :: 'g decoded) = (Returns (None, None), i')" for dummy :: 'g
      by (cases "ParseBool str") (simp add: Boolean_def andThen_def)
    show r: "ReadNext ParseFloat (Suc fuel) (CHR ''#'' # i) = (Returns (None, None), i')"
      by (simp add: ReadNext_def ReadByte_def readFns_def b andThen_def)
    assume "2 \<le> length j"
    then have "ReadNext ParseFloat (Suc fuel) (CHR ''.'' # j) = (Returns (None, None), drop 2 j)"
      by (simp add: ReadNext_def ReadByte_def readFns_def andThen_def ReadEnd_def Discard_def)
    with r show "fst (ReadNext ParseFloat (Suc fuel) (CHR ''#'' # i)) =
        fst (ReadNext ParseFloat (Suc fuel) (CHR ''.'' # j))"
      by simp
  }
  {
    assume "snd (ParseFloat str) = None"
    with s show d: "Double ParseFloat i = (Returns (None, None), i')"
      by (cases "ParseFloat str") (simp add: Double_def andThen_def)
    show r: "ReadNext ParseFloat (Suc fuel) (CHR '','' # i) = (Returns (None, None), i')"
      by (simp add: ReadNext_def ReadByte_def readFns_def d andThen_def)
    assume "2 \<le> length j"
    then have "ReadNext ParseFloat (Suc fuel) (CHR ''.'' # j) = (Returns (None, None), drop 2 j)"
      by (simp add: ReadNext_def ReadByte_def readFns_def andThen_def ReadEnd_def Discard_def)
    with r show "fst (ReadNext ParseFloat (Suc fuel) (CHR '','' # i)) =
        fst (ReadNext ParseFloat (Suc fuel) (CHR ''.'' # j))"
      by simp
  }
next
  assume "(Boolean i :: 'f decoded) = (Returns (Some m, err), k)"
  then show "err \<noteq> None"
    by (auto simp: Boolean_def andThen_def
        split: prod.splits outcome.splits option.splits if_splits)
next
  assume "Double ParseFloat i = (Returns (Some m, err), k)"
  then show "err \<noteq> None"
    by (auto simp: Double_def andThen_def
        split: prod.splits outcome.splits option.splits if_splits)
next
  fix m err k
  show "ReadNext ParseFloat (Suc fuel) (CHR ''#'' # i) \<noteq> (Returns (Some m, err), k)"
    by (auto simp: ReadNext_def ReadByte_def readFns_def Boolean_def andThen_def
        split: prod.splits outcome.splits option.splits if_splits)
next
  fix m err k
  show "ReadNext ParseFloat (Suc fuel) (CHR '','' # i) \<noteq> (Returns (Some m, err), k)"
    by (auto simp: ReadNext_def ReadByte_def readFns_def Double_def andThen_def
        split: prod.splits outcome.splits option.splits if_splits)
qed

theorem C10_parsed_scalar_is_dropped_witness:
  "simpleString (''t'' @ CRLF) = (Returns (''t'', None), []) \<and>
   ''t'' \<in> set [''1'', ''t'', ''T'', ''TRUE'', ''true'', ''True'',
                ''0'', ''f'', ''F'', ''FALSE'', ''false'', ''False''] \<and>
   ReadNext (\<lambda>s. if s = ''1.5'' then ((15::int, - 1::int), None) else ((0, 0), Some ErrSyntax))
       (Suc 0) (CHR ''#'' # ''t'' @ CRLF) =
     (Returns (None, None), []) \<and>
   simpleString (''1.5'' @ CRLF) = (Returns (''1.5'', None), []) \<and>
   snd ((\<lambda>s. if s = ''1.5'' then ((15::int, - 1::int), None) else ((0, 0), Some ErrSyntax))
       ''1.5'') = None \<and>
   ReadNext (\<lambda>s. if s = ''1.5'' then ((15::int, - 1::int), None) else ((0, 0), Some ErrSyntax))
       (Suc 0) (CHR '','' # ''1.5'' @ CRLF) =
     (Returns (None, None), []) \<and>
   (Boolean (''x'' @ CRLF) :: (int \<times> int) decoded) =
     (Returns (Some (Bool None False), Some ErrSyntax), []) \<and>
   Some ErrSyntax \<noteq> None"
proof -
  let ?pf = "\<lambda>s. if s = ''1.5'' then ((15::int, - 1::int), None) else ((0, 0), Some ErrSyntax)"
  have h1: "simpleString (''t'' @ CRLF) = (Returns (''t'', None), [])"
    by (simp add: reader_defs scalar_defs)
  have h2: "''t'' \<in> set [''1'', ''t'', ''T'', ''TRUE'', ''true'', ''True'',
                ''0'', ''f'', ''F'', ''FALSE'', ''false'', ''False'']"
    by simp
  have h3: "simpleString (''1.5'' @ CRLF) = (Returns (''1.5'', None), [])"
    by (simp add: reader_defs scalar_defs)
  have h4: "snd (?pf ''1.5'') = None"
    by simp
  have h5: "(Boolean (''x'' @ CRLF) :: (int \<times> int) decoded) =
      (Returns (Some (Bool None False), Some ErrSyntax), [])"
    by (simp add: reader_defs parse_defs scalar_defs)
  note a = C10_parsed_scalar_is_dropped [where ParseFloat = ?pf and fuel = 0
      and i = "''t'' @ CRLF" and str = "''t''" and i' = "[]"]
  note b = C10_parsed_scalar_is_dropped [where ParseFloat = ?pf and fuel = 0
      and i = "''1.5'' @ CRLF" and str = "''1.5''" and i' = "[]"]
  note c = C10_parsed_scalar_is_dropped [where ParseFloat = ?pf
      and i = "''x'' @ CRLF" and m = "Bool None False" and err = "Some ErrSyntax" and k = "[]"]
  from a h1 h2
  have "ReadNext ?pf (Suc 0) (CHR ''#'' # ''t'' @ CRLF) = (Returns (None, None), [])"
    by blast
  moreover from b h3 h4
  have "ReadNext ?pf (Suc 0) (CHR '','' # ''1.5'' @ CRLF) = (Returns (None, None), [])"
    by blast
  moreover from c h5 have "Some ErrSyntax \<noteq> None"
    by blast
  ultimately show ?thesis
    using h1 h2 h3 h4 h5 by blast
qed

text \<open>A streamed array therefore ends at its first boolean, as it would at the
  stream-end tag; what follows is left unread.\<close>

lemma streamed_array_ends_at_boolean:
  "ReadNext ParseFloat (Suc (Suc (Suc fuel)))
     (''*?'' @ CRLF @ ''+a'' @ CRLF @ ''#t'' @ CRLF @ ''+b'' @ CRLF @ ''.'' @ CRLF) =
     (Returns (Some (Array None [Some (String None ''a'')]), None),
      ''+b'' @ CRLF @ ''.'' @ CRLF)"
  by (simp add: reader_defs parse_defs scalar_defs aggregate_defs)

subsection \<open>Enough fuel\<close>

text \<open>Fuel only bounds the recursion of the model: with more fuel than the input has
  bytes, \<^verbatim>\<open>ReadNext\<close> never runs out of it. Every call of \<^verbatim>\<open>ReadNext\<close> consumes
  the tag byte before it decodes anything nested, and every round of a streamed loop
  consumes at least one byte or ends the loop.\<close>

lemma within_mono: "within n r \<Longrightarrow> n \<le> n' \<Longrightarrow> within n' r"
  by (simp add: within_def)

lemma within_Returns [simp]: "within n (Returns a, i) \<longleftrightarrow> length i \<le> n"
  by (simp add: within_def)

lemma within_Panics [simp]: "within n (Panics p, i) \<longleftrightarrow> length i \<le> n"
  by (simp add: within_def)

lemma within_andThen:
  assumes "within n m"
    and "\<And>a. m = (Returns a, snd m) \<Longrightarrow> within n (k a (snd m))"
  shows "within n (andThen m k)"
  using assms by (cases m) (auto simp: andThen_def within_def split: outcome.split)

lemma within_simpleString: "within (length i) (simpleString i)"
  using ReadBytes_length [of LF i]
  by (cases "ReadBytes LF i") (auto simp: simpleString_def split: option.split)

lemma within_number: "within (length i) (number i)"
  unfolding number_def
  by (rule within_andThen [OF within_simpleString])
     (use simpleString_length [of i] in \<open>auto split: prod.split option.split\<close>)

lemma within_blobString: "within (length i) (blobString i)"
  unfolding blobString_def
proof (rule within_andThen [OF within_number], goal_cases)
  case (1 a)
  obtain len err where a: "a = (len, err)" by (cases a)
  let ?i1 = "snd (number i)"
  have i1: "length ?i1 \<le> length i" by (rule number_length)
  obtain bs e2 i2 where f: "ReadFull (nat len) ?i1 = ((bs, e2), i2)" by (metis surj_pair)
  with ReadFull_length [of "nat len" ?i1] have i2: "length i2 \<le> length ?i1" by simp
  obtain r e3 i3 where d: "Discard 2 i2 = ((r, e3), i3)" by (metis surj_pair)
  with Discard_length [of 2 i2] have "length i3 \<le> length i2" by simp
  with a f d i1 i2 show ?case
    by (auto split: option.split)
qed

lemma number_not_Timeout [simp]: "number i \<noteq> (Timeout, j)"
  using within_number [of i] by (auto simp: within_def)

lemma within_chunkString: "within (length i) (chunkString i sb)"
proof -
  have "fst (chunkString i sb) \<noteq> Timeout"
    by (auto simp: chunkString_def andThen_def
        split: prod.splits option.splits outcome.splits if_splits)
  then show ?thesis
    by (simp add: within_def chunkString_length)
qed

lemma within_BlobString_chunks:
  "within (length i) (BlobString_chunks sb i :: 'f decoded)"
proof (induction sb i rule: BlobString_chunks.induct)
  case (1 sb i)
  have w: "within (length i) (chunkString i sb)"
    by (rule within_chunkString)
  show ?case
  proof (cases "chunkString i sb")
    case (Pair r i')
    with w have i': "length i' \<le> length i" and r: "r \<noteq> Timeout"
      by (simp_all add: within_def)
    show ?thesis
    proof (cases r)
      case (Returns x)
      obtain n err sb' where x: "x = ((n, err), sb')" by (metis surj_pair)
      show ?thesis
      proof (cases "err = None \<and> n \<noteq> 0")
        case True
        with Pair Returns x
        have "within (length i') (BlobString_chunks sb' i' :: 'f decoded)"
          by (intro "1.IH") auto
        with i' have "within (length i) (BlobString_chunks sb' i' :: 'f decoded)"
          by (rule within_mono [rotated])
        with True Pair Returns x show ?thesis
          by (subst BlobString_chunks.simps) simp
      next
        case False
        with Pair Returns x i' show ?thesis
          by (subst BlobString_chunks.simps) (auto split: option.split)
      qed
    next
      case (Panics p)
      with Pair i' show ?thesis
        by (subst BlobString_chunks.simps) simp
    next
      case Timeout
      with r show ?thesis by simp
    qed
  qed
qed


lemma within_scalars:
  "within (length i) (SimpleString i :: 'f decoded)"
  "within (length i) (SimpleError i :: 'f decoded)"
  "within (length i) (Number i :: 'f decoded)"
  "within (length i) (BigNumber i :: 'f decoded)"
  "within (length i) (Double ParseFloat i)"
  "within (length i) (Boolean i :: 'f decoded)"
  "within (length i) (BlobError i :: 'f decoded)"
  "within (length i) (VerbatimString i :: 'f decoded)"
  "within (length i) (Null i :: 'f decoded)"
  "within (length i) (ReadEnd i :: 'f decoded)"
proof -
  show "within (length i) (SimpleString i :: 'f decoded)"
    unfolding SimpleString_def
    by (rule within_andThen [OF within_simpleString])
       (use simpleString_length [of i] in \<open>auto split: prod.split\<close>)
  show "within (length i) (SimpleError i :: 'f decoded)"
    unfolding SimpleError_def
    by (rule within_andThen [OF within_simpleString])
       (use simpleString_length [of i] in \<open>auto split: prod.split\<close>)
  show "within (length i) (Number i :: 'f decoded)"
    unfolding Number_def
    by (rule within_andThen [OF within_number])
       (use number_length [of i] in \<open>auto split: prod.split\<close>)
  show "within (length i) (BigNumber i :: 'f decoded)"
    unfolding BigNumber_def
    by (rule within_andThen [OF within_simpleString])
       (use simpleString_length [of i] in \<open>auto split: prod.split option.split\<close>)
  show "within (length i) (Double ParseFloat i)"
    unfolding Double_def
    by (rule within_andThen [OF within_simpleString])
       (use simpleString_length [of i] in \<open>auto split: prod.split option.split\<close>)
  show "within (length i) (Boolean i :: 'f decoded)"
    unfolding Boolean_def
    by (rule within_andThen [OF within_simpleString])
       (use simpleString_length [of i] in \<open>auto split: prod.split option.split\<close>)
  have b: "length (snd (blobString i)) \<le> length i"
    using within_blobString [of i] by (simp add: within_def)
  show "within (length i) (BlobError i :: 'f decoded)"
    unfolding BlobError_def
    by (rule within_andThen [OF within_blobString])
       (use b in \<open>auto split: prod.split\<close>)
  show "within (length i) (VerbatimString i :: 'f decoded)"
    unfolding VerbatimString_def
    by (rule within_andThen [OF within_blobString])
       (use b in \<open>auto split: prod.split\<close>)
  show "within (length i) (Null i :: 'f decoded)"
    using Discard_length [of 2 i]
    by (cases "Discard 2 i") (auto simp: Null_def)
  show "within (length i) (ReadEnd i :: 'f decoded)"
    using Discard_length [of 2 i]
    by (cases "Discard 2 i") (auto simp: ReadEnd_def)
qed

lemma within_BlobString: "within (length i) (BlobString i :: 'f decoded)"
  unfolding BlobString_def
proof (rule within_andThen [OF within_blobString], goal_cases)
  case (1 a)
  have b: "length (snd (blobString i)) \<le> length i"
    using within_blobString [of i] by (simp add: within_def)
  have "within (length i) (BlobString_chunks [] (snd (blobString i)) :: 'f decoded)"
    by (rule within_mono [OF within_BlobString_chunks b])
  with b show ?case
    by (auto split: prod.split)
qed

text \<open>The loops of the aggregate decoders, over an element decoder that returns, never
  lengthens the input and consumes a byte whenever it returns without an error.\<close>

lemma consumingD:
  assumes "consuming rn N" and "length j \<le> N"
  shows "within (length j) (rn j)"
    and "rn j = (Returns (m, None), j') \<Longrightarrow> length j' < length j"
  using assms by (auto simp: consuming_def within_def)

lemma within_readArray_chunked:
  assumes rn: "consuming rn N"
  shows "length j \<le> N \<Longrightarrow> length j < fuel \<Longrightarrow>
    within (length j) (readArray_chunked rn fuel acc j)"
proof (induction fuel arbitrary: acc j)
  case 0
  then show ?case by simp
next
  case (Suc fuel)
  have w: "within (length j) (rn j)"
    by (rule consumingD(1) [OF rn Suc.prems(1)])
  show ?case
    unfolding readArray_chunked.simps
  proof (rule within_andThen [OF w], goal_cases)
    case (1 a)
    obtain n err where a: "a = (n, err)" by (cases a)
    let ?j' = "snd (rn j)"
    from w have le: "length ?j' \<le> length j"
      by (simp add: within_def)
    show ?case
    proof (cases "err = None \<and> n \<noteq> None")
      case True
      with 1 a have "length ?j' < length j"
        by (intro consumingD(2) [OF rn Suc.prems(1), of n]) simp
      with Suc.prems have "within (length ?j') (readArray_chunked rn fuel (acc @ [n]) ?j')"
        by (intro Suc.IH) auto
      with le have "within (length j) (readArray_chunked rn fuel (acc @ [n]) ?j')"
        by (rule within_mono [rotated])
      with True a show ?thesis by auto
    next
      case False
      with a le show ?thesis by auto
    qed
  qed
qed

lemma within_readArray_fixed:
  "consuming rn N \<Longrightarrow> length j \<le> N \<Longrightarrow>
   within (length j) (readArray_fixed rn n len acc j)"
proof (induction rn n len acc j rule: readArray_fixed.induct)
  case (1 rn n len acc j)
  note rn = "1.prems"(1)
  have w: "within (length j) (rn j)"
    by (rule consumingD(1) [OF rn "1.prems"(2)])
  show ?case
  proof (cases "n < len")
    case False
    then show ?thesis
      by (subst readArray_fixed.simps) simp
  next
    case True
    have "within (length j) (andThen (rn j) (\<lambda>(m, err) i'.
          if err \<noteq> None then (Returns (None, err), i')
          else readArray_fixed rn (n + 1) len (acc[nat n := m]) i'))"
    proof (rule within_andThen [OF w], goal_cases)
      case (1 a)
      obtain m err where a: "a = (m, err)" by (cases a)
      let ?j' = "snd (rn j)"
      from w have le: "length ?j' \<le> length j"
        by (simp add: within_def)
      show ?case
      proof (cases "err = None")
        case None: True
        from le "1.prems"(2) have "length ?j' \<le> N" by simp
        with True 1 a None rn
        have "within (length ?j') (readArray_fixed rn (n + 1) len (acc[nat n := m]) ?j')"
          by (intro "1.IH") auto
        with le have "within (length j) (readArray_fixed rn (n + 1) len (acc[nat n := m]) ?j')"
          by (rule within_mono [rotated])
        with None a show ?thesis by auto
      next
        case False
        with a le show ?thesis by auto
      qed
    qed
    with True show ?thesis
      by (subst readArray_fixed.simps) simp
  qed
qed

lemma within_readArray:
  assumes "consuming rn N" and "length i \<le> N" and "length i < fuel"
  shows "within (length i) (readArray rn fuel i)"
  unfolding readArray_def
proof (rule within_andThen [OF within_number], goal_cases)
  case (1 a)
  obtain len err where a: "a = (len, err)" by (cases a)
  let ?i1 = "snd (number i)"
  have le: "length ?i1 \<le> length i"
    by (rule number_length)
  with assms have c: "within (length ?i1) (readArray_chunked rn fuel [] ?i1)"
    by (intro within_readArray_chunked [of rn N]) auto
  from le assms
  have f: "within (length ?i1) (readArray_fixed rn 0 len (replicate (nat len) None) ?i1)"
    by (intro within_readArray_fixed [of rn N]) auto
  from c f le a show ?case
    by (auto intro: within_mono)
qed


lemma within_andThen_element:
  assumes rn: "consuming rn N" and j: "length j \<le> N" and n: "length j \<le> n"
    and k: "\<And>m err j'. rn j = (Returns (m, err), j') \<Longrightarrow> length j' \<le> length j \<Longrightarrow>
      (err = None \<Longrightarrow> length j' < length j) \<Longrightarrow> within n (k (m, err) j')"
  shows "within n (andThen (rn j) k)"
proof (rule within_andThen)
  show "within n (rn j)"
    by (rule within_mono [OF consumingD(1) [OF rn j] n])
next
  fix a
  assume a: "rn j = (Returns a, snd (rn j))"
  obtain m err where p: "a = (m, err)" by (cases a)
  have le: "length (snd (rn j)) \<le> length j"
    using consumingD(1) [OF rn j] by (simp add: within_def)
  have "within n (k (m, err) (snd (rn j)))"
  proof (rule k)
    show "rn j = (Returns (m, err), snd (rn j))"
      using a p by simp
    show "length (snd (rn j)) \<le> length j"
      by (rule le)
    assume "err = None"
    with a p show "length (snd (rn j)) < length j"
      by (intro consumingD(2) [OF rn j, of m]) simp
  qed
  with p show "within n (k a (snd (rn j)))"
    by simp
qed

lemma within_readMap_chunked:
  assumes rn: "consuming rn N"
  shows "length j \<le> N \<Longrightarrow> length j < fuel \<Longrightarrow>
    within (length j) (readMap_chunked rn fuel ks vs j)"
proof (induction fuel arbitrary: ks vs j)
  case 0
  then show ?case by simp
next
  case (Suc fuel)
  show ?case
    unfolding readMap_chunked.simps
  proof (rule within_andThen_element [OF rn Suc.prems(1) order_refl], goal_cases)
    case (1 l err j1)
    show ?case
    proof (cases "err = None \<and> l \<noteq> None")
      case False
      with 1 show ?thesis by auto
    next
      case True
      from 1 Suc.prems have j1: "length j1 \<le> N" by simp
      have "within (length j) (andThen (rn j1) (\<lambda>(n, err) i2.
            if err \<noteq> None then (Returns ((None, None), err), i2)
            else readMap_chunked rn fuel (ks @ [l]) (vs @ [n]) i2))"
      proof (rule within_andThen_element [OF rn j1 1(2)], goal_cases)
        case (1 n err2 j2)
        show ?case
        proof (cases "err2 = None")
          case False
          with 1 \<open>length j1 \<le> length j\<close> show ?thesis by auto
        next
          case None: True
          from 1 True \<open>err = None \<Longrightarrow> length j1 < length j\<close> Suc.prems j1
          have "within (length j2) (readMap_chunked rn fuel (ks @ [l]) (vs @ [n]) j2)"
            by (intro Suc.IH) auto
          with 1 \<open>length j1 \<le> length j\<close>
          have "within (length j) (readMap_chunked rn fuel (ks @ [l]) (vs @ [n]) j2)"
            by (auto intro: within_mono)
          with None show ?thesis by simp
        qed
      qed
      with True show ?thesis by auto
    qed
  qed
qed

lemma within_readMap_fixed:
  "consuming rn N \<Longrightarrow> length j \<le> N \<Longrightarrow>
   within (length j) (readMap_fixed rn n len ks vs j)"
proof (induction rn n len ks vs j rule: readMap_fixed.induct)
  case (1 rn n len ks vs j)
  note rn = "1.prems"(1)
  show ?case
  proof (cases "n < len")
    case False
    then show ?thesis
      by (subst readMap_fixed.simps) simp
  next
    case True
    have "within (length j) (andThen (rn j) (\<lambda>(l, err) i1.
          if err \<noteq> None then (Returns ((None, None), err), i1)
          else andThen (rn i1) (\<lambda>(m, err) i2.
            if err \<noteq> None then (Returns ((None, None), err), i2)
            else readMap_fixed rn (n + 1) len (ks[nat n := l]) (vs[nat n := m]) i2)))"
    proof (rule within_andThen_element [OF rn "1.prems"(2) order_refl], goal_cases)
      case (1 l err j1)
      note k = this
      show ?case
      proof (cases "err = None")
        case False
        with k show ?thesis by auto
      next
        case None: True
        from k "1.prems" have j1: "length j1 \<le> N" by simp
        have "within (length j) (andThen (rn j1) (\<lambda>(m, err) i2.
              if err \<noteq> None then (Returns ((None, None), err), i2)
              else readMap_fixed rn (n + 1) len (ks[nat n := l]) (vs[nat n := m]) i2))"
        proof (rule within_andThen_element [OF rn j1 k(2)], goal_cases)
          case (1 m err2 j2)
          show ?case
          proof (cases "err2 = None")
            case False
            with 1 k(2) show ?thesis by auto
          next
            case ok: True
            from 1 j1 have "length j2 \<le> N" by simp
            with True rn
            have "within (length j2)
                (readMap_fixed rn (n + 1) len (ks[nat n := l]) (vs[nat n := m]) j2)"
              by (intro "1.IH") auto
            with 1 k(2)
            have "within (length j)
                (readMap_fixed rn (n + 1) len (ks[nat n := l]) (vs[nat n := m]) j2)"
              by (auto intro: within_mono)
            with ok show ?thesis by simp
          qed
        qed
        with None show ?thesis by simp
      qed
    qed
    with True show ?thesis
      by (subst readMap_fixed.simps) simp
  qed
qed

lemma within_readMap:
  assumes "consuming rn N" and "length i \<le> N" and "length i < fuel"
  shows "within (length i) (readMap rn fuel i)"
  unfolding readMap_def
proof (rule within_andThen [OF within_number], goal_cases)
  case (1 a)
  obtain len err where a: "a = (len, err)" by (cases a)
  let ?i1 = "snd (number i)"
  have le: "length ?i1 \<le> length i"
    by (rule number_length)
  with assms have c: "within (length ?i1) (readMap_chunked rn fuel [] [] ?i1)"
    by (intro within_readMap_chunked [of rn N]) auto
  from le assms
  have f: "within (length ?i1)
      (readMap_fixed rn 0 len (replicate (nat len) None) (replicate (nat len) None) ?i1)"
    by (intro within_readMap_fixed [of rn N]) auto
  from c f le a show ?case
    by (auto intro: within_mono)
qed

lemma within_readFns:
  assumes "consuming rn N" and "length i \<le> N" and "length i < fuel"
    and "readFns ParseFloat rn fuel t i = Some r"
  shows "within (length i) r"
proof -
  have a: "within (length i) (readArray rn fuel i)"
    by (rule within_readArray [OF assms(1-3)])
  have m: "within (length i) (readMap rn fuel i)"
    by (rule within_readMap [OF assms(1-3)])
  have "within (length i) (ReadArray rn fuel i)"
    "within (length i) (ReadSet rn fuel i)"
    "within (length i) (ReadPush rn fuel i)"
    unfolding ReadArray_def ReadSet_def ReadPush_def
    by (rule within_andThen [OF a]; use a in \<open>auto simp: within_def split: prod.split\<close>)+
  moreover have "within (length i) (ReadMap rn fuel i)"
    "within (length i) (ReadAttributes rn fuel i)"
    unfolding ReadMap_def ReadAttributes_def
    by (rule within_andThen [OF m]; use m in \<open>auto simp: within_def split: prod.split\<close>)+
  ultimately show ?thesis
    using assms(4) within_scalars [of i] within_BlobString [of i]
    by (auto simp: readFns_def split: if_splits)
qed


lemma ReadNext_loop_Nil:
  "ReadNext_loop ParseFloat (Suc fuel) attrs [] = (Returns (None, Some EOF), [])"
  by (simp add: ReadByte_def)

declare ReadNext_loop.simps [simp del]

lemma consuming_ReadNext_loop:
  assumes "\<And>attrs t i. length i < fuel \<Longrightarrow>
    within (length i) (ReadNext_loop ParseFloat (Suc fuel) attrs (t # i))"
  shows "consuming (ReadNext_loop ParseFloat (Suc fuel) attrs) fuel"
  unfolding consuming_def
proof (intro allI impI)
  fix j :: reader
  assume j: "length j \<le> fuel"
  let ?r = "ReadNext_loop ParseFloat (Suc fuel) attrs j"
  show "fst ?r \<noteq> Timeout \<and> length (snd ?r) \<le> length j \<and>
      (\<forall>m. fst ?r = Returns (m, None) \<longrightarrow> length (snd ?r) < length j)"
  proof (cases j)
    case Nil
    have "?r = (Returns (None, Some EOF), [])"
      unfolding Nil by (rule ReadNext_loop_Nil)
    then show ?thesis
      by (simp only: fst_conv snd_conv) simp
  next
    case (Cons t i)
    with j have "within (length i) ?r"
      by (simp add: assms)
    with Cons show ?thesis
      by (simp add: within_def)
  qed
qed

lemma within_ReadNext_loop_Cons:
  "length i < fuel \<Longrightarrow>
   within (length i) (ReadNext_loop ParseFloat (Suc fuel) attrs (t # i))"
proof (induction fuel arbitrary: attrs t i)
  case 0
  then show ?case by simp
next
  case (Suc fuel)
  let ?rn = "ReadNext_loop ParseFloat (Suc fuel) None"
  have rn: "consuming ?rn fuel"
    by (rule consuming_ReadNext_loop) (rule Suc.IH)
  from Suc.prems have i: "length i \<le> fuel" "length i < Suc fuel"
    by simp_all
  show ?case
  proof (cases "readFns ParseFloat ?rn (Suc fuel) t i")
    case None
    then show ?thesis
      by (simp add: ReadNext_loop.simps ReadByte_def)
  next
    case (Some r)
    have r: "within (length i) r"
      by (rule within_readFns [OF rn i Some])
    have "within (length i) (andThen r (\<lambda>(msg, err) i2.
        if err \<noteq> None then (Returns (None, err), i2)
        else if t = CHR ''|'' then
          (case msg of
             Some (Attributes k v) \<Rightarrow> ReadNext_loop ParseFloat (Suc fuel) (Some (k, v)) i2
           | _ \<Rightarrow> (Panics ''interface conversion: Message is not *Attributes'', i2))
        else
          (case attrs of
             Some a \<Rightarrow>
               (case msg of
                  None \<Rightarrow> (Panics ''invalid memory address or nil pointer dereference'', i2)
                | Some m \<Rightarrow> (Returns (Some (SetAttributes m a), None), i2))
           | None \<Rightarrow> (Returns (msg, None), i2))))"
    proof (rule within_andThen [OF r], goal_cases)
      case (1 a)
      obtain msg err where a: "a = (msg, err)" by (cases a)
      let ?i2 = "snd r"
      from r have le: "length ?i2 \<le> length i"
        by (simp add: within_def)
      have loop: "within (length i) (ReadNext_loop ParseFloat (Suc fuel) pending ?i2)"
        for pending
      proof (cases ?i2)
        case Nil
        show ?thesis
          unfolding Nil ReadNext_loop_Nil by simp
      next
        case (Cons t' i3)
        with le i have "length i3 < fuel" by simp
        then have "within (length i3) (ReadNext_loop ParseFloat (Suc fuel) pending (t' # i3))"
          by (rule Suc.IH)
        with Cons le show ?thesis
          by (auto intro: within_mono)
      qed
      from le loop a show ?case
        by (auto split: option.split Message.split)
    qed
    with Some show ?thesis
      by (simp add: ReadNext_loop.simps ReadByte_def)
  qed
qed

theorem ReadNext_returns:
  "length i < fuel \<Longrightarrow> fst (ReadNext ParseFloat fuel i) \<noteq> Timeout"
proof -
  assume l: "length i < fuel"
  then obtain f where f: "fuel = Suc f"
    by (cases fuel) auto
  show ?thesis
  proof (cases i)
    case Nil
    show ?thesis
      unfolding Nil f ReadNext_def ReadNext_loop_Nil by simp
  next
    case (Cons t i1)
    with l f have "within (length i1) (ReadNext_loop ParseFloat (Suc f) None (t # i1))"
      by (intro within_ReadNext_loop_Cons) simp
    with Cons f show ?thesis
      by (simp add: ReadNext_def within_def)
  qed
qed

end
